theory Spec2Isabelle
  imports Complex_Main
begin

section \<open>Python values the program computes with\<close>

text \<open>
  The exceptions the program can raise. \<open>TypeError\<close> is raised by \<open>Bond.__mul__\<close>
  itself (and by \<open>functools.reduce\<close> on an empty sequence); \<open>OverflowError\<close> by
  \<open>datetime\<close> when a date leaves the range \<open>date.min .. date.max\<close>;
  \<open>DivisionByZero\<close> and \<open>InvalidOperation\<close> by \<open>decimal\<close> when a nonzero, resp. a
  zero, dividend is divided by zero (and for \<open>0 ** 0\<close>). \<open>SolverDegenerate\<close> is the error
  the specification gives the secant solver.
\<close>

datatype error = TypeError | OverflowError | DivisionByZero | InvalidOperation | SolverDegenerate

text \<open>
  A computation that may loop forever returns an \<open>option\<close>: \<open>None\<close> is "does not
  return", \<open>Some (Inl e)\<close> is "raises e", \<open>Some (Inr v)\<close> is "returns v".
\<close>

type_synonym 'a result = "(error + 'a) option"

definition bindR :: "'a result \<Rightarrow> ('a \<Rightarrow> 'b result) \<Rightarrow> 'b result" where
  "bindR m f = (case m of None \<Rightarrow> None | Some (Inl e) \<Rightarrow> Some (Inl e) | Some (Inr v) \<Rightarrow> f v)"

text \<open>
  \<open>decimal.Decimal\<close>: a finite decimal number, modelled by its value as a rational.
  The arithmetic is the exact one; the rounding of the \<open>decimal\<close> context (28 significant
  digits by default) and the special values (NaN, infinities) are outside the model.
\<close>

type_synonym decimal = rat

definition dec_div :: "decimal \<Rightarrow> decimal \<Rightarrow> error + decimal" where
  "dec_div x y =
     (if y = 0 then (if x = 0 then Inl InvalidOperation else Inl DivisionByZero)
      else Inr (x / y))"



subsection \<open>Calendar dates\<close>

text \<open>
  A \<open>datetime.date\<close> is modelled by its proleptic Gregorian ordinal
  (\<open>date.toordinal()\<close>): day 1 is 0001-01-01 and \<open>date.max\<close> = 9999-12-31 is day
  3652059. The conversions follow the standard library's \<open>_ymd2ord\<close> and
  \<open>_ord2ymd\<close>.
\<close>

type_synonym date = int

definition MAXORDINAL :: int where
  "MAXORDINAL = 3652059"

definition valid_date :: "date \<Rightarrow> bool" where
  "valid_date d = (1 \<le> d \<and> d \<le> MAXORDINAL)"

definition is_leap :: "int \<Rightarrow> bool" where
  "is_leap year = (year mod 4 = 0 \<and> (year mod 100 \<noteq> 0 \<or> year mod 400 = 0))"

definition DAYS_IN_MONTH :: "int list" where
  "DAYS_IN_MONTH = [-1, 31, 28, 31, 30, 31, 30, 31, 31, 30, 31, 30, 31]"

definition DAYS_BEFORE_MONTH :: "int list" where
  "DAYS_BEFORE_MONTH = [-1, 0, 31, 59, 90, 120, 151, 181, 212, 243, 273, 304, 334]"

definition days_before_year :: "int \<Rightarrow> int" where
  "days_before_year year =
     (let y = year - 1 in y * 365 + y div 4 - y div 100 + y div 400)"

definition days_before_month :: "int \<Rightarrow> int \<Rightarrow> int" where
  "days_before_month year month =
     DAYS_BEFORE_MONTH ! nat month + (if month > 2 \<and> is_leap year then 1 else 0)"

definition ymd2ord :: "int \<Rightarrow> int \<Rightarrow> int \<Rightarrow> date" where
  "ymd2ord year month day = days_before_year year + days_before_month year month + day"

definition ord2ymd :: "date \<Rightarrow> int \<times> int \<times> int" where
  "ord2ymd ordinal =
     (let n = ordinal - 1;
          n400 = n div 146097; n = n mod 146097;
          year = n400 * 400 + 1;
          n100 = n div 36524; n = n mod 36524;
          n4 = n div 1461; n = n mod 1461;
          n1 = n div 365; n = n mod 365;
          year = year + n100 * 100 + n4 * 4 + n1
      in if n1 = 4 \<or> n100 = 4 then (year - 1, 12, 31)
         else
           let leapyear = (n1 = 3 \<and> (n4 \<noteq> 24 \<or> n100 = 3));
               month = (n + 50) div 32;
               preceding = DAYS_BEFORE_MONTH ! nat month
                           + (if month > 2 \<and> leapyear then 1 else 0)
           in if preceding > n
              then let month = month - 1;
                       preceding = preceding
                         - (DAYS_IN_MONTH ! nat month
                            + (if month = 2 \<and> leapyear then 1 else 0))
                   in (year, month, n - preceding + 1)
              else (year, month, n - preceding + 1))"

text \<open>\<open>datetime.timedelta(days)\<close> accepts at most 999999999 days in either direction.\<close>

definition timedelta :: "int \<Rightarrow> error + int" where
  "timedelta days = (if \<bar>days\<bar> > 999999999 then Inl OverflowError else Inr days)"

text \<open>\<open>date + timedelta\<close>: the result must again be a date.\<close>

definition date_add :: "date \<Rightarrow> int \<Rightarrow> error + date" where
  "date_add d days =
     (case timedelta days of
        Inl e \<Rightarrow> Inl e
      | Inr delta \<Rightarrow>
          (let ordinal = d + delta
           in if 0 < ordinal \<and> ordinal \<le> MAXORDINAL then Inr ordinal
              else Inl OverflowError))"

subsection \<open>Integers as text\<close>

text \<open>\<open>str(k)\<close> for an integer, as the f-string in \<open>Bond.__mul__\<close> formats it.\<close>

definition digit_char :: "nat \<Rightarrow> char" where
  "digit_char d = ''0123456789'' ! d"

fun str_nat :: "nat \<Rightarrow> string" where
  "str_nat k = (if k < 10 then [digit_char k] else str_nat (k div 10) @ [digit_char (k mod 10)])"

declare str_nat.simps [simp del]


section \<open>The bond\<close>

record Bond =
  name :: string
  face_value :: decimal
  coupon :: decimal
  coupon_days :: int
  first_coupon_date :: date
  maturity_date :: date

text \<open>
  The right operand of \<open>bond * other\<close> can be any Python object. \<open>bool\<close> is a subclass of
  \<open>int\<close>, so \<open>isinstance(True, int)\<close> holds.
\<close>

datatype pyobj = PyInt int | PyBool bool | PyDecimal decimal | PyStr string | PyNone






definition coupon_per_year :: "Bond \<Rightarrow> error + decimal" where
  "coupon_per_year self = dec_div (coupon self * 365) (of_int (coupon_days self))"

definition coupon_rate :: "Bond \<Rightarrow> error + decimal" where
  "coupon_rate self =
     (case coupon_per_year self of Inl e \<Rightarrow> Inl e | Inr c \<Rightarrow> dec_div c (face_value self))"

text \<open>
  The loop of \<open>coupon_payments\<close>: \<open>coupon_date\<close> and \<open>dates\<close> are its two variables.
  With \<open>coupon_days = 0\<close> and a first date not after maturity it never ends.
\<close>

partial_function (option) coupon_loop ::
  "Bond \<Rightarrow> date \<Rightarrow> (date \<times> decimal) list \<Rightarrow> (error + (date \<times> decimal) list) option" where
  "coupon_loop self coupon_date dates =
     (if coupon_date \<le> maturity_date self
      then (case date_add coupon_date (coupon_days self) of
              Inl e \<Rightarrow> Some (Inl e)
            | Inr next_date \<Rightarrow>
                coupon_loop self next_date (dates @ [(coupon_date, coupon self)]))
      else Some (Inr dates))"

declare coupon_loop.simps [code]

text \<open>
  \<open>coupon_payments\<close> returns a data frame indexed by date with one column, named after
  the bond; it is modelled by its rows, in order. Building the frame from the list
  (\<open>pd.DataFrame\<close>, \<open>pd.to_datetime\<close>, \<open>set_index\<close>) keeps the rows as they are; the
  range of dates a pandas timestamp can hold is not part of the model.
\<close>

definition coupon_payments :: "Bond \<Rightarrow> (date \<times> decimal) list result" where
  "coupon_payments self = coupon_loop self (first_coupon_date self) []"

partial_function (option) n_loop :: "Bond \<Rightarrow> date \<Rightarrow> int \<Rightarrow> (error + int) option" where
  "n_loop self coupon_date k =
     (if coupon_date \<le> maturity_date self
      then (case date_add coupon_date (coupon_days self) of
              Inl e \<Rightarrow> Some (Inl e)
            | Inr next_date \<Rightarrow> n_loop self next_date (k + 1))
      else Some (Inr k))"

declare n_loop.simps [code]

definition n :: "Bond \<Rightarrow> int result" where
  "n self = n_loop self (first_coupon_date self) 0"

text \<open>The bond of the program's own example.\<close>

definition ofz_29012 :: Bond where
  "ofz_29012 = \<lparr> name = ''OFZ_29012'', face_value = 1000, coupon = 3959 / 100,
                  coupon_days = 182, first_coupon_date = ymd2ord 2019 11 20,
                  maturity_date = ymd2ord 2022 11 16 \<rparr>"

definition ofz_26220 :: Bond where
  "ofz_26220 = \<lparr> name = ''OFZ_26220'', face_value = 1000, coupon = 369 / 10,
                  coupon_days = 182, first_coupon_date = ymd2ord 2019 12 11,
                  maturity_date = ymd2ord 2022 12 7 \<rparr>"



section \<open>The deal\<close>









section \<open>The collection\<close>

text \<open>
  A data frame indexed by date: its number of value columns and its rows, each a date
  with one cell per column; \<open>None\<close> is a missing value (NaN). Column labels play no part
  in the sums and are left out.
\<close>

record frame =
  ncols :: nat
  rows :: "(date \<times> decimal option list) list"

text \<open>The frame \<open>coupon_payments\<close> builds from its list of (date, coupon) pairs.\<close>

definition single_column :: "(date \<times> decimal) list \<Rightarrow> frame" where
  "single_column ps = \<lparr> ncols = 1, rows = map (\<lambda>(d, c). (d, [Some c])) ps \<rparr>"

text \<open>
  \<open>pd.merge(left, right, on='date', how='outer', sort=True)\<close>: one row per date of
  either frame, in date order; a frame without the date contributes missing values.
  (Each frame has a date at most once: a schedule is strictly increasing.)
\<close>

definition cells_at :: "frame \<Rightarrow> date \<Rightarrow> decimal option list" where
  "cells_at f d = (case map_of (rows f) d of Some cs \<Rightarrow> cs | None \<Rightarrow> replicate (ncols f) None)"

definition merge :: "frame \<Rightarrow> frame \<Rightarrow> frame" where
  "merge left right =
     \<lparr> ncols = ncols left + ncols right,
       rows = map (\<lambda>d. (d, cells_at left d @ cells_at right d))
                (sort (remdups (map fst (rows left) @ map fst (rows right)))) \<rparr>"

text \<open>\<open>functools.reduce\<close> without an initial value: a \<open>TypeError\<close> on an empty sequence.\<close>

fun reduce_merge :: "frame list \<Rightarrow> error + frame" where
  "reduce_merge [] = Inl TypeError"
| "reduce_merge (f # fs) = Inr (foldl merge f fs)"

text \<open>\<open>sum\<close> skips missing values.\<close>

definition nan0 :: "decimal option \<Rightarrow> decimal" where
  "nan0 c = (case c of None \<Rightarrow> 0 | Some v \<Rightarrow> v)"

definition row_sum :: "decimal option list \<Rightarrow> decimal" where
  "row_sum cs = sum_list (map nan0 cs)"

text \<open>\<open>merged['total'] = merged.sum(axis=1)\<close>: a new last column.\<close>

definition add_total :: "frame \<Rightarrow> frame" where
  "add_total f =
     \<lparr> ncols = ncols f + 1,
       rows = map (\<lambda>(d, cs). (d, cs @ [Some (row_sum cs)])) (rows f) \<rparr>"

text \<open>A calendar month, counted from year 0: \<open>12 * year + (month - 1)\<close>.\<close>

definition month_index :: "date \<Rightarrow> int" where
  "month_index d = (case ord2ymd d of (y, m, dd) \<Rightarrow> y * 12 + (m - 1))"

text \<open>
  \<open>resample('M').sum()\<close>: one bin for every calendar month from the first row's to the
  last row's, and in each bin the sum of every column over the rows of that month.
\<close>

definition column_sums :: "nat \<Rightarrow> (date \<times> decimal option list) list \<Rightarrow> decimal list" where
  "column_sums w rs = map (\<lambda>j. sum_list (map (\<lambda>(d, cs). nan0 (cs ! j)) rs)) [0..<w]"

definition resample_sum :: "frame \<Rightarrow> (int \<times> decimal list) list" where
  "resample_sum f =
     (if rows f = [] then []
      else map (\<lambda>mi. (mi, column_sums (ncols f) (filter (\<lambda>(d, cs). month_index d = mi) (rows f))))
             [month_index (fst (hd (rows f))) .. month_index (fst (last (rows f)))])"

text \<open>The second \<open>.sum(axis=1)\<close>: the sum over all columns of each bin.\<close>

definition sum_axis1 :: "(int \<times> decimal list) list \<Rightarrow> (int \<times> decimal) list" where
  "sum_axis1 bins = map (\<lambda>(mi, vs). (mi, sum_list vs)) bins"

text \<open>\<open>strftime('%Y/%m')\<close> of a month.\<close>

definition zero_pad :: "nat \<Rightarrow> string \<Rightarrow> string" where
  "zero_pad w s = replicate (w - length s) CHR ''0'' @ s"

definition strftime_Ym :: "int \<Rightarrow> string" where
  "strftime_Ym mi =
     zero_pad 4 (str_nat (nat (mi div 12))) @ ''/'' @ zero_pad 2 (str_nat (nat (mi mod 12 + 1)))"

definition relabel :: "(int \<times> decimal) list \<Rightarrow> (string \<times> decimal) list" where
  "relabel grouped = map (\<lambda>(mi, v). (strftime_Ym mi, v)) grouped"

definition drop_zero :: "(string \<times> decimal) list \<Rightarrow> (string \<times> decimal) list" where
  "drop_zero grouped = filter (\<lambda>(l, v). v \<noteq> 0) grouped"

text \<open>The list comprehension: the bonds' schedules in order, stopping at the first that
  raises or does not return.\<close>

fun collect :: "'a result list \<Rightarrow> 'a list result" where
  "collect [] = Some (Inr [])"
| "collect (r # rs) = bindR r (\<lambda>v. bindR (collect rs) (\<lambda>vs. Some (Inr (v # vs))))"

definition grouped_by_month :: "frame \<Rightarrow> (int \<times> decimal) list" where
  "grouped_by_month merged = sum_axis1 (resample_sum (add_total merged))"

text \<open>\<open>print_all_coupons\<close>; the result is the series it prints.\<close>

definition print_all_coupons :: "Bond list \<Rightarrow> (string \<times> decimal) list result" where
  "print_all_coupons bonds =
     bindR (collect (map coupon_payments bonds)) (\<lambda>dfs.
       case reduce_merge (map single_column dfs) of
         Inl e \<Rightarrow> Some (Inl e)
       | Inr merged \<Rightarrow> Some (Inr (drop_zero (relabel (grouped_by_month merged)))))"

text \<open>
  What the report is compared with: a schedule's amount on a date, the sum of a
  schedule's payments whose dates fall in a month, and the schedule a bond returns.
\<close>

definition amount_at :: "(date \<times> decimal) list \<Rightarrow> date \<Rightarrow> decimal" where
  "amount_at ps d = (case map_of ps d of Some c \<Rightarrow> c | None \<Rightarrow> 0)"

definition month_total :: "(date \<times> decimal) list \<Rightarrow> int \<Rightarrow> decimal" where
  "month_total ps mi = sum_list (map snd (filter (\<lambda>(d, c). month_index d = mi) ps))"

definition payments_of :: "Bond \<Rightarrow> (date \<times> decimal) list" where
  "payments_of b = (case coupon_payments b of Some (Inr ps) \<Rightarrow> ps | _ \<Rightarrow> [])"

text \<open>Frames as the program builds them: every row has one cell per column, and no
  date occurs twice. The total of a frame's row at a date.\<close>

definition wf_frame :: "frame \<Rightarrow> bool" where
  "wf_frame f = ((\<forall>(d, cs) \<in> set (rows f). length cs = ncols f) \<and> distinct (map fst (rows f)))"

definition frame_total :: "frame \<Rightarrow> date \<Rightarrow> decimal" where
  "frame_total f d = row_sum (cells_at f d)"

text \<open>Two fixtures: the merged frame of the two example bonds, and a deal on a bond
  with a single coupon date, priced at a quarter of its only cash flow.\<close>

definition two_merged :: frame where
  "two_merged = \<lparr> ncols = 2, rows =
     [(737383, [Some (3959 / 100), None]), (737404, [None, Some (369 / 10)]),
      (737565, [Some (3959 / 100), None]), (737586, [None, Some (369 / 10)]),
      (737747, [Some (3959 / 100), None]), (737768, [None, Some (369 / 10)]),
      (737929, [Some (3959 / 100), None]), (737950, [None, Some (369 / 10)]),
      (738111, [Some (3959 / 100), None]), (738132, [None, Some (369 / 10)]),
      (738293, [Some (3959 / 100), None]), (738314, [None, Some (369 / 10)]),
      (738475, [Some (3959 / 100), None]), (738496, [None, Some (369 / 10)])] \<rparr>"


section \<open>The two loops of the bond\<close>

lemmas coupon_loop_induct = coupon_loop.raw_induct[rotated 1, consumes 1, case_names step]

lemmas n_loop_induct = n_loop.raw_induct[rotated 1, consumes 1, case_names step]

lemma coupon_loop_n_loop:
  assumes "coupon_loop b d acc = Some r"
  shows "n_loop b d k = Some (map_sum id (\<lambda>ps. k + int (length ps) - int (length acc)) r)"
  using assms
proof (induct arbitrary: k rule: coupon_loop_induct)
  case (step cl self cd dates y)
  show ?case
  proof (cases "cd \<le> maturity_date self")
    case False
    with step(2) show ?thesis by (auto simp add: n_loop.simps)
  next
    case True
    show ?thesis
    proof (cases "date_add cd (coupon_days self)")
      case (Inl e)
      with True step(2) show ?thesis by (auto simp add: n_loop.simps)
    next
      case (Inr nd)
      from True Inr step(2) have a: "cl self nd (dates @ [(cd, coupon self)]) = Some y" by simp
      have c: "(\<lambda>ps. k + 1 + int (length ps) - int (length (dates @ [(cd, coupon self)])))
             = (\<lambda>ps. k + int (length ps) - int (length dates))"
        by (rule ext) simp
      from step(1)[OF a, of "k + 1"] True Inr show ?thesis
        unfolding c by (simp add: n_loop.simps[of self cd k])
    qed
  qed
qed

lemma n_loop_coupon_loop:
  assumes "n_loop b d k = Some r"
  shows "\<exists>r'. coupon_loop b d acc = Some r'"
  using assms
proof (induct arbitrary: acc rule: n_loop_induct)
  case (step nl self cd k y)
  show ?case
  proof (cases "cd \<le> maturity_date self")
    case False
    then show ?thesis by (simp add: coupon_loop.simps)
  next
    case True
    show ?thesis
    proof (cases "date_add cd (coupon_days self)")
      case (Inl e)
      with True show ?thesis by (simp add: coupon_loop.simps)
    next
      case (Inr nd)
      from True Inr step(2) have a: "nl self nd (k + 1) = Some y" by simp
      from step(1)[OF a, of "acc @ [(cd, coupon self)]"] True Inr show ?thesis
        by (simp add: coupon_loop.simps[of self cd])
    qed
  qed
qed

lemma n_agrees: "n b = map_option (map_sum id (\<lambda>ps. int (length ps))) (coupon_payments b)"
proof (cases "coupon_payments b")
  case None
  have "n b = None"
  proof (rule ccontr)
    assume "n b \<noteq> None"
    then obtain r where "n_loop b (first_coupon_date b) 0 = Some r" by (auto simp: n_def)
    from n_loop_coupon_loop[OF this, of "[]"] None show False by (simp add: coupon_payments_def)
  qed
  with None show ?thesis by simp
next
  case (Some r)
  then show ?thesis
    using coupon_loop_n_loop[of b "first_coupon_date b" "[]" r 0]
    by (simp add: coupon_payments_def n_def)
qed

text \<open>With a positive period the loop ends, whatever the dates.\<close>

lemma coupon_loop_terminates:
  assumes "0 < coupon_days b"
  shows "\<exists>r. coupon_loop b d acc = Some r"
proof (induct "nat (maturity_date b - d + 1)" arbitrary: d acc rule: less_induct)
  case less
  show ?case
  proof (cases "d \<le> maturity_date b")
    case False
    then show ?thesis by (simp add: coupon_loop.simps)
  next
    case True
    show ?thesis
    proof (cases "date_add d (coupon_days b)")
      case (Inl e)
      with True show ?thesis by (simp add: coupon_loop.simps)
    next
      case (Inr nd)
      then have "nd = d + coupon_days b"
        by (auto simp: date_add_def timedelta_def Let_def split: if_splits)
      with assms True have "nat (maturity_date b - nd + 1) < nat (maturity_date b - d + 1)"
        by simp
      from less[OF this, of "acc @ [(d, coupon b)]"] True Inr show ?thesis
        by (simp add: coupon_loop.simps[of b d])
    qed
  qed
qed

subsection \<open>The schedule in closed form\<close>







section \<open>The example bond\<close>

lemmas calendar_defs = ymd2ord_def days_before_year_def days_before_month_def
  DAYS_BEFORE_MONTH_def DAYS_IN_MONTH_def is_leap_def

lemmas loop_step_defs = date_add_def timedelta_def MAXORDINAL_def Let_def


lemma ofz_29012_payments:
  "coupon_payments ofz_29012 =
     Some (Inr [(737383, 3959 / 100), (737565, 3959 / 100), (737747, 3959 / 100),
                (737929, 3959 / 100), (738111, 3959 / 100), (738293, 3959 / 100),
                (738475, 3959 / 100)])"
  by (simp add: coupon_payments_def ofz_29012_def calendar_defs coupon_loop.simps loop_step_defs)


text \<open>
  C2, as the code has it: the bond with face value 1000, coupon 39.59, period 182 days,
  first coupon 2019-11-20 and maturity 2022-11-16 has seven coupon payments, not six:
  maturity is exactly \<open>6 * 182\<close> days after the first coupon, and the loop includes
  the date that equals maturity. Both \<open>n\<close> and the length of \<open>coupon_payments\<close>
  are 7.
\<close>

theorem ofz_29012_seven_payments:
  "n ofz_29012 = Some (Inr 7)
   \<and> map_option (map_sum id length) (coupon_payments ofz_29012) = Some (Inr 7)"
  by (simp add: n_agrees ofz_29012_payments)

text \<open>C2 as stated (six payments) does not hold of the code.\<close>

theorem ofz_29012_not_six_payments:
  "\<not> (n ofz_29012 = Some (Inr 6)
      \<and> map_option (map_sum id length) (coupon_payments ofz_29012) = Some (Inr 6))"
  by (simp add: n_agrees ofz_29012_payments)

section \<open>Scaling\<close>






section \<open>Count and schedule\<close>




text \<open>
  C10: when the first coupon date is after maturity, nothing is raised:
  \<open>coupon_payments\<close> returns the empty schedule and \<open>n\<close> returns 0, whatever the
  period; and with a positive period both operations end, whatever the dates.
\<close>

theorem first_after_maturity_no_coupons:
  "(maturity_date b < first_coupon_date b \<longrightarrow>
      coupon_payments b = Some (Inr []) \<and> n b = Some (Inr 0))
   \<and> (0 < coupon_days b \<longrightarrow> (\<exists>r. coupon_payments b = Some r) \<and> (\<exists>r. n b = Some r))"
proof -
  have "maturity_date b < first_coupon_date b \<Longrightarrow> coupon_payments b = Some (Inr [])"
    by (simp add: coupon_payments_def coupon_loop.simps)
  moreover have "0 < coupon_days b \<Longrightarrow> \<exists>r. coupon_payments b = Some r"
    unfolding coupon_payments_def by (rule coupon_loop_terminates)
  ultimately show ?thesis by (auto simp: n_agrees)
qed

theorem first_after_maturity_no_coupons_witness:
  "maturity_date (ofz_29012\<lparr>first_coupon_date := ymd2ord 2022 11 17\<rparr>)
     < first_coupon_date (ofz_29012\<lparr>first_coupon_date := ymd2ord 2022 11 17\<rparr>)
   \<and> coupon_payments (ofz_29012\<lparr>first_coupon_date := ymd2ord 2022 11 17\<rparr>) = Some (Inr [])
   \<and> n (ofz_29012\<lparr>first_coupon_date := ymd2ord 2022 11 17\<rparr>) = Some (Inr 0)
   \<and> 0 < coupon_days ofz_29012
   \<and> (\<exists>r. coupon_payments ofz_29012 = Some r) \<and> (\<exists>r. n ofz_29012 = Some r)"
proof -
  have a: "maturity_date (ofz_29012\<lparr>first_coupon_date := ymd2ord 2022 11 17\<rparr>)
     < first_coupon_date (ofz_29012\<lparr>first_coupon_date := ymd2ord 2022 11 17\<rparr>)"
    by (simp add: ofz_29012_def calendar_defs)
  have b: "0 < coupon_days ofz_29012" by (simp add: ofz_29012_def)
  from first_after_maturity_no_coupons[of "ofz_29012\<lparr>first_coupon_date := ymd2ord 2022 11 17\<rparr>"]
    first_after_maturity_no_coupons[of ofz_29012] a b
  show ?thesis by blast
qed

section \<open>Current yield\<close>




section \<open>The monthly report\<close>

subsection \<open>Where the rows of the merged frame come from\<close>

lemma bindR_Inr_iff:
  "(bindR m f = Some (Inr y)) = (\<exists>v. m = Some (Inr v) \<and> f v = Some (Inr y))"
  by (auto simp: bindR_def split: option.splits sum.splits)

lemma collect_Inr:
  "collect rs = Some (Inr vs) \<Longrightarrow> rs = map (\<lambda>v. Some (Inr v)) vs"
proof (induct rs arbitrary: vs)
  case Nil
  then show ?case by simp
next
  case (Cons r rs)
  from Cons(2) obtain v ws where "r = Some (Inr v)" "collect rs = Some (Inr ws)" "vs = v # ws"
    by (auto simp: bindR_Inr_iff)
  with Cons(1)[of ws] show ?case by simp
qed

lemma collect_returns:
  "collect (map (\<lambda>v. Some (Inr v)) vs) = Some (Inr vs)"
  by (induct vs) (simp_all add: bindR_def)

lemma dates_single_column: "fst ` set (rows (single_column ps)) = fst ` set ps"
  by (force simp: single_column_def)

lemma dates_merge:
  "fst ` set (rows (merge l r)) = fst ` set (rows l) \<union> fst ` set (rows r)"
  by (force simp: merge_def)

lemma dates_foldl_merge:
  "fst ` set (rows (foldl merge f fs))
   = fst ` set (rows f) \<union> (\<Union>g \<in> set fs. fst ` set (rows g))"
proof (induct fs arbitrary: f)
  case Nil
  show ?case by simp
next
  case (Cons g gs)
  show ?case unfolding foldl_Cons Cons[of "merge f g"] dates_merge by auto
qed



lemma resample_sum_entry:
  assumes "(mi, vs) \<in> set (resample_sum f)"
  shows "vs = column_sums (ncols f) (filter (\<lambda>(d, cs). month_index d = mi) (rows f))"
  using assms by (auto simp: resample_sum_def split: if_splits)


lemma print_all_coupons_unfold:
  assumes "map coupon_payments (b # bs) = map (\<lambda>v. Some (Inr v)) (p # ps)"
  shows "print_all_coupons (b # bs) =
     Some (Inr (drop_zero (relabel (grouped_by_month
        (foldl merge (single_column p) (map single_column ps))))))"
  unfolding print_all_coupons_def assms collect_returns by (simp add: bindR_def)

subsection \<open>What a monthly bin adds up\<close>

lemma row_sum_append: "row_sum (a @ b) = row_sum a + row_sum b"
  by (simp add: row_sum_def)

lemma row_sum_replicate_None: "row_sum (replicate k None) = 0"
  by (induct k) (simp_all add: row_sum_def nan0_def)

lemma length_cells_at: "wf_frame f \<Longrightarrow> length (cells_at f d) = ncols f"
  by (auto simp: cells_at_def wf_frame_def split: option.splits dest: map_of_SomeD)

lemma wf_single_column: "distinct (map fst ps) \<Longrightarrow> wf_frame (single_column ps)"
  by (auto simp: wf_frame_def single_column_def case_prod_unfold comp_def)

lemma ncols_merge: "ncols (merge l r) = ncols l + ncols r"
  by (simp add: merge_def)

lemma rows_merge:
  "rows (merge l r) = map (\<lambda>d. (d, cells_at l d @ cells_at r d))
                        (sort (remdups (map fst (rows l) @ map fst (rows r))))"
  by (simp add: merge_def)

lemma wf_merge:
  assumes "wf_frame l" "wf_frame r"
  shows "wf_frame (merge l r)"
proof -
  have "map fst (rows (merge l r)) = sort (remdups (map fst (rows l) @ map fst (rows r)))"
    unfolding rows_merge by (simp add: comp_def)
  then have "distinct (map fst (rows (merge l r)))" by simp
  moreover have "\<forall>(d, cs) \<in> set (rows (merge l r)). length cs = ncols (merge l r)"
    unfolding rows_merge ncols_merge using assms by (auto simp: length_cells_at)
  ultimately show ?thesis unfolding wf_frame_def by blast
qed

lemma wf_foldl_merge:
  "wf_frame f \<Longrightarrow> \<forall>g \<in> set fs. wf_frame g \<Longrightarrow> wf_frame (foldl merge f fs)"
  by (induct fs arbitrary: f) (simp_all add: wf_merge)

lemma cells_at_absent:
  assumes "d \<notin> fst ` set (rows f)"
  shows "cells_at f d = replicate (ncols f) None"
proof -
  from assms have "map_of (rows f) d = None" by (simp add: map_of_eq_None_iff)
  then show ?thesis by (simp add: cells_at_def)
qed

lemma cells_at_merge:
  "cells_at (merge l r) d =
     (if d \<in> fst ` set (rows l) \<union> fst ` set (rows r) then cells_at l d @ cells_at r d
      else replicate (ncols l + ncols r) None)"
proof -
  have "map_of (rows (merge l r)) d =
      (if d \<in> fst ` set (rows l) \<union> fst ` set (rows r) then Some (cells_at l d @ cells_at r d)
       else None)"
    unfolding rows_merge by (simp add: map_of_map_restrict restrict_map_def)
  then show ?thesis unfolding cells_at_def[of "merge l r"] ncols_merge by simp
qed

lemma frame_total_merge: "frame_total (merge l r) d = frame_total l d + frame_total r d"
  by (auto simp: frame_total_def cells_at_merge row_sum_append cells_at_absent
      row_sum_replicate_None)

lemma frame_total_foldl_merge:
  "frame_total (foldl merge f fs) d
   = frame_total f d + sum_list (map (\<lambda>g. frame_total g d) fs)"
  by (induct fs arbitrary: f) (simp_all add: frame_total_merge add.assoc)

lemma frame_total_single_column: "frame_total (single_column ps) d = amount_at ps d"
proof -
  have "map_of (map (\<lambda>(d, c). (d, [Some c])) ps) d = map_option (\<lambda>c. [Some c]) (map_of ps d)"
    by (induct ps) auto
  then show ?thesis
    by (simp add: frame_total_def cells_at_def single_column_def amount_at_def row_sum_def
        nan0_def split: option.splits)
qed

lemma row_total_is_frame_total:
  assumes "wf_frame f" "(d, cs) \<in> set (rows f)"
  shows "row_sum cs = frame_total f d"
proof -
  from assms have "map_of (rows f) d = Some cs" by (simp add: wf_frame_def)
  then show ?thesis by (simp add: frame_total_def cells_at_def)
qed

lemma sum_list_column_sums:
  assumes "\<forall>(d, cs) \<in> set rs. length cs = w"
  shows "sum_list (column_sums w rs) = sum_list (map (\<lambda>(d, cs). row_sum cs) rs)"
  using assms
proof (induct rs)
  case Nil
  show ?case by (simp add: column_sums_def)
next
  case (Cons r rs)
  obtain d cs where r: "r = (d, cs)" by (cases r)
  with Cons(2) have len: "length cs = w" by simp
  have "sum_list (column_sums w (r # rs))
        = sum_list (map (\<lambda>j. nan0 (cs ! j)) [0..<w]) + sum_list (column_sums w rs)"
    by (simp add: column_sums_def r sum_list_addf)
  also have "map (\<lambda>j. nan0 (cs ! j)) [0..<w] = map nan0 (map ((!) cs) [0..<length cs])"
    unfolding len[symmetric] by (simp add: comp_def)
  also have "\<dots> = map nan0 cs" by (simp only: map_nth)
  finally show ?case using Cons by (simp add: r row_sum_def)
qed

lemma grouped_entry_doubles:
  assumes wf: "wf_frame f" and e: "(mi, v) \<in> set (grouped_by_month f)"
  shows "v = 2 * sum_list (map (frame_total f)
                 (filter (\<lambda>d. month_index d = mi) (map fst (rows f))))"
proof -
  let ?g = "add_total f"
  let ?M = "\<lambda>(d, cs :: decimal option list). month_index d = mi"
  from e obtain vs where vs: "(mi, vs) \<in> set (resample_sum ?g)" "v = sum_list vs"
    by (auto simp: grouped_by_month_def sum_axis1_def)
  have fl: "filter ?M (rows ?g) = map (\<lambda>(d, cs). (d, cs @ [Some (row_sum cs)])) (filter ?M (rows f))"
    by (simp add: add_total_def filter_map comp_def case_prod_unfold)
  have len: "\<forall>(d, cs) \<in> set (filter ?M (rows ?g)). length cs = ncols ?g"
    using wf by (auto simp: add_total_def wf_frame_def)
  have "v = sum_list (column_sums (ncols ?g) (filter ?M (rows ?g)))"
    using resample_sum_entry[OF vs(1)] vs(2) by simp
  also have "\<dots> = sum_list (map (\<lambda>(d, cs). row_sum cs) (filter ?M (rows ?g)))"
    by (rule sum_list_column_sums[OF len])
  also have "\<dots> = sum_list (map (\<lambda>(d, cs). 2 * row_sum cs) (filter ?M (rows f)))"
    unfolding fl by (simp add: comp_def case_prod_unfold row_sum_append row_sum_def nan0_def)
  also have "\<dots> = sum_list (map (\<lambda>(d, cs). 2 * frame_total f d) (filter ?M (rows f)))"
    by (rule arg_cong[where f = sum_list], rule map_cong)
       (auto simp: row_total_is_frame_total[OF wf])
  also have "\<dots> = 2 * sum_list (map (frame_total f)
                 (filter (\<lambda>d. month_index d = mi) (map fst (rows f))))"
    by (simp add: filter_map comp_def case_prod_unfold sum_list_const_mult)
  finally show ?thesis .
qed

lemma amount_at_Cons:
  "amount_at ((d0, c0) # ps) d = (if d = d0 then c0 else amount_at ps d)"
  by (simp add: amount_at_def)

lemma amount_at_absent: "d \<notin> fst ` set ps \<Longrightarrow> amount_at ps d = 0"
  by (simp add: amount_at_def map_of_eq_None_iff[THEN iffD2])

text \<open>Summing a schedule's amounts over a duplicate-free list of dates that covers the
  schedule's own dates gives the schedule's total.\<close>

lemma sum_amount_at_keys:
  assumes "distinct (map fst ps)" "distinct ks" "fst ` set ps \<subseteq> set ks"
  shows "sum_list (map (amount_at ps) (filter P ks)) = sum_list (map snd (filter (\<lambda>(d, c). P d) ps))"
  using assms
proof (induct ps arbitrary: ks)
  case Nil
  have "sum_list (map (amount_at []) (filter P ks)) = 0"
    by (induct ks) (simp_all add: amount_at_def)
  then show ?case by simp
next
  case (Cons p ps)
  obtain d0 c0 where p: "p = (d0, c0)" by (cases p)
  from Cons(2) p have d0: "d0 \<notin> fst ` set ps" and dist: "distinct (map fst ps)" by auto
  from Cons(4) p have in_ks: "d0 \<in> set ks" by simp
  let ?ks = "removeAll d0 ks"
  have dks: "distinct ?ks" using Cons(3) by (simp add: distinct_removeAll)
  have sub: "fst ` set ps \<subseteq> set ?ks" using Cons(4) d0 p by auto
  have split: "sum_list (map g (filter P ks))
        = (if P d0 then g d0 else 0) + sum_list (map g (filter P ?ks))" for g :: "date \<Rightarrow> decimal"
    using Cons(3) in_ks
  proof (induct ks)
    case Nil
    then show ?case by simp
  next
    case (Cons k ks)
    show ?case
    proof (cases "k = d0")
      case True
      with Cons(2) have "d0 \<notin> set ks" by simp
      then have "removeAll d0 ks = ks" by (simp add: removeAll_id)
      with True show ?thesis by simp
    next
      case False
      with Cons show ?thesis by (simp add: algebra_simps)
    qed
  qed
  have same: "map (amount_at (p # ps)) (filter P ?ks) = map (amount_at ps) (filter P ?ks)"
    by (rule map_cong) (auto simp: p amount_at_Cons)
  have "sum_list (map (amount_at (p # ps)) (filter P ks))
        = (if P d0 then c0 else 0) + sum_list (map (amount_at ps) (filter P ?ks))"
    unfolding split[of "amount_at (p # ps)"] same by (simp add: p amount_at_Cons)
  also have "sum_list (map (amount_at ps) (filter P ?ks))
        = sum_list (map snd (filter (\<lambda>(d, c). P d) ps))"
    by (rule Cons(1)[OF dist dks sub])
  finally show ?case by (simp add: p)
qed

lemma sum_list_swap:
  "sum_list (map (\<lambda>x. sum_list (map (\<lambda>y. h y x) ys)) xs)
   = sum_list (map (\<lambda>y. sum_list (map (h y) xs)) ys)" for h :: "'b \<Rightarrow> 'a \<Rightarrow> decimal"
  by (induct ys) (simp_all add: sum_list_addf)

text \<open>A schedule that is returned has each date once.\<close>

lemma coupon_loop_no_return:
  assumes "coupon_loop b d acc = Some r" "coupon_days b \<le> 0" "d \<le> maturity_date b"
  shows "\<exists>e. r = Inl e"
  using assms
proof (induct rule: coupon_loop_induct)
  case (step cl self cd dates y)
  show ?case
  proof (cases "date_add cd (coupon_days self)")
    case (Inl e)
    with step(2,4) show ?thesis by auto
  next
    case (Inr nd)
    then have nd: "nd = cd + coupon_days self"
      by (auto simp: date_add_def timedelta_def Let_def split: if_splits)
    from Inr step(2,4) have "cl self nd (dates @ [(cd, coupon self)]) = Some y" by simp
    from step(1)[OF this step(3)] nd step(3,4) show ?thesis by simp
  qed
qed

lemma coupon_loop_increasing:
  assumes "coupon_loop b d acc = Some (Inr ps)" "0 < coupon_days b"
    "distinct (map fst acc)" "\<forall>x \<in> set acc. fst x < d"
  shows "distinct (map fst ps)"
  using assms
proof (induct b d acc "Inr ps :: error + (date \<times> decimal) list" rule: coupon_loop_induct)
  case (step cl self cd dates)
  show ?case
  proof (cases "cd \<le> maturity_date self")
    case False
    with step(2,4) show ?thesis by simp
  next
    case True
    show ?thesis
    proof (cases "date_add cd (coupon_days self)")
      case (Inl e)
      with True step(2) show ?thesis by simp
    next
      case (Inr nd)
      then have nd: "nd = cd + coupon_days self"
        by (auto simp: date_add_def timedelta_def Let_def split: if_splits)
      from True Inr step(2) have a: "cl self nd (dates @ [(cd, coupon self)]) = Some (Inr ps)"
        by simp
      have d: "distinct (map fst (dates @ [(cd, coupon self)]))"
        using step(4,5) by auto
      have l: "\<forall>x \<in> set (dates @ [(cd, coupon self)]). fst x < nd"
        using step(3,5) nd by auto
      from step(1)[OF a step(3) d l] show ?thesis .
    qed
  qed
qed

lemma coupon_payments_distinct:
  assumes "coupon_payments b = Some (Inr ps)"
  shows "distinct (map fst ps)"
proof (cases "0 < coupon_days b")
  case True
  from coupon_loop_increasing[OF assms[unfolded coupon_payments_def] True] show ?thesis by simp
next
  case False
  show ?thesis
  proof (cases "first_coupon_date b \<le> maturity_date b")
    case True
    from coupon_loop_no_return[OF assms[unfolded coupon_payments_def] _ True] False
    show ?thesis by simp
  next
    case False
    with assms show ?thesis by (simp add: coupon_payments_def coupon_loop.simps)
  qed
qed

lemma merged_month_sum:
  assumes d: "\<forall>q \<in> set (p # ps). distinct (map fst q)"
  defines "merged \<equiv> foldl merge (single_column p) (map single_column ps)"
  shows "sum_list (map (frame_total merged)
                    (filter (\<lambda>d. month_index d = mi) (map fst (rows merged))))
         = sum_list (map (\<lambda>q. month_total q mi) (p # ps))"
proof -
  let ?ks = "map fst (rows merged)"
  let ?P = "\<lambda>d. month_index d = mi"
  have wf: "wf_frame merged"
    unfolding merged_def using d by (intro wf_foldl_merge) (auto simp: wf_single_column)
  then have dks: "distinct ?ks" by (simp add: wf_frame_def)
  have keys: "set ?ks = (\<Union>q \<in> set (p # ps). fst ` set q)"
    using dates_foldl_merge[of "single_column p" "map single_column ps"]
    by (simp add: merged_def dates_single_column)
  have ft: "frame_total merged = (\<lambda>d. sum_list (map (\<lambda>q. amount_at q d) (p # ps)))"
    by (rule ext)
       (simp add: merged_def frame_total_foldl_merge frame_total_single_column comp_def)
  have "sum_list (map (frame_total merged) (filter ?P ?ks))
        = sum_list (map (\<lambda>q. sum_list (map (amount_at q) (filter ?P ?ks))) (p # ps))"
    unfolding ft by (rule sum_list_swap)
  also have "\<dots> = sum_list (map (\<lambda>q. month_total q mi) (p # ps))"
  proof (rule arg_cong[where f = sum_list], rule map_cong[OF refl])
    fix q assume q: "q \<in> set (p # ps)"
    with d have dq: "distinct (map fst q)" by blast
    from q keys have sub: "fst ` set q \<subseteq> set ?ks" by blast
    show "sum_list (map (amount_at q) (filter ?P ?ks)) = month_total q mi"
      unfolding month_total_def by (rule sum_amount_at_keys[OF dq dks sub])
  qed
  finally show ?thesis .
qed

subsection \<open>The two example bonds\<close>

lemma ofz_26220_payments:
  "coupon_payments ofz_26220 =
     Some (Inr [(737404, 369 / 10), (737586, 369 / 10), (737768, 369 / 10),
                (737950, 369 / 10), (738132, 369 / 10), (738314, 369 / 10),
                (738496, 369 / 10)])"
  by (simp add: coupon_payments_def ofz_26220_def calendar_defs coupon_loop.simps loop_step_defs)

lemma month_index_examples:
  "month_index 737383 = 24238" "month_index 737565 = 24244" "month_index 737747 = 24250"
  "month_index 737929 = 24256" "month_index 738111 = 24262" "month_index 738293 = 24268"
  "month_index 738475 = 24274"
  "month_index 737404 = 24239" "month_index 737586 = 24245" "month_index 737768 = 24251"
  "month_index 737950 = 24257" "month_index 738132 = 24263" "month_index 738314 = 24269"
  "month_index 738496 = 24275"
  by (simp_all add: month_index_def ord2ymd_def Let_def DAYS_BEFORE_MONTH_def DAYS_IN_MONTH_def)

lemma merged_two:
  "reduce_merge (map single_column
     [[(737383, 3959 / 100), (737565, 3959 / 100), (737747, 3959 / 100),
       (737929, 3959 / 100), (738111, 3959 / 100), (738293, 3959 / 100),
       (738475, 3959 / 100)],
      [(737404, 369 / 10), (737586, 369 / 10), (737768, 369 / 10),
       (737950, 369 / 10), (738132, 369 / 10), (738314, 369 / 10),
       (738496, 369 / 10)]]) = Inr two_merged"
  by (simp add: single_column_def merge_def cells_at_def two_merged_def)

lemma grouped_two:
  "grouped_by_month two_merged =
     [(24238, 3959 / 50), (24239, 369 / 5), (24240, 0), (24241, 0), (24242, 0), (24243, 0),
      (24244, 3959 / 50), (24245, 369 / 5), (24246, 0), (24247, 0), (24248, 0), (24249, 0),
      (24250, 3959 / 50), (24251, 369 / 5), (24252, 0), (24253, 0), (24254, 0), (24255, 0),
      (24256, 3959 / 50), (24257, 369 / 5), (24258, 0), (24259, 0), (24260, 0), (24261, 0),
      (24262, 3959 / 50), (24263, 369 / 5), (24264, 0), (24265, 0), (24266, 0), (24267, 0),
      (24268, 3959 / 50), (24269, 369 / 5), (24270, 0), (24271, 0), (24272, 0), (24273, 0),
      (24274, 3959 / 50), (24275, 369 / 5)]"
  by (simp add: grouped_by_month_def sum_axis1_def resample_sum_def add_total_def two_merged_def
      month_index_examples column_sums_def row_sum_def nan0_def upto_rec1[of "numeral _"]
      upt_rec[of "0"] upt_rec[of "Suc _"])

lemma strftime_examples:
  "strftime_Ym 24238 = ''2019/11''" "strftime_Ym 24239 = ''2019/12''"
  "strftime_Ym 24244 = ''2020/05''" "strftime_Ym 24245 = ''2020/06''"
  "strftime_Ym 24250 = ''2020/11''" "strftime_Ym 24251 = ''2020/12''"
  "strftime_Ym 24256 = ''2021/05''" "strftime_Ym 24257 = ''2021/06''"
  "strftime_Ym 24262 = ''2021/11''" "strftime_Ym 24263 = ''2021/12''"
  "strftime_Ym 24268 = ''2022/05''" "strftime_Ym 24269 = ''2022/06''"
  "strftime_Ym 24274 = ''2022/11''" "strftime_Ym 24275 = ''2022/12''"
  by (simp_all add: strftime_Ym_def zero_pad_def str_nat.simps digit_char_def)

lemma two_bond_report:
  "print_all_coupons [ofz_29012, ofz_26220] =
     Some (Inr [(''2019/11'', 3959 / 50), (''2019/12'', 369 / 5),
                (''2020/05'', 3959 / 50), (''2020/06'', 369 / 5),
                (''2020/11'', 3959 / 50), (''2020/12'', 369 / 5),
                (''2021/05'', 3959 / 50), (''2021/06'', 369 / 5),
                (''2021/11'', 3959 / 50), (''2021/12'', 369 / 5),
                (''2022/05'', 3959 / 50), (''2022/06'', 369 / 5),
                (''2022/11'', 3959 / 50), (''2022/12'', 369 / 5)])"
proof -
  have "print_all_coupons [ofz_29012, ofz_26220]
        = Some (Inr (drop_zero (relabel (grouped_by_month two_merged))))"
    using merged_two
    by (simp add: print_all_coupons_def ofz_29012_payments ofz_26220_payments bindR_def)
  also have "drop_zero (relabel (grouped_by_month two_merged)) =
     [(''2019/11'', 3959 / 50), (''2019/12'', 369 / 5),
      (''2020/05'', 3959 / 50), (''2020/06'', 369 / 5),
      (''2020/11'', 3959 / 50), (''2020/12'', 369 / 5),
      (''2021/05'', 3959 / 50), (''2021/06'', 369 / 5),
      (''2021/11'', 3959 / 50), (''2021/12'', 369 / 5),
      (''2022/05'', 3959 / 50), (''2022/06'', 369 / 5),
      (''2022/11'', 3959 / 50), (''2022/12'', 369 / 5)]"
    unfolding grouped_two by (simp add: relabel_def drop_zero_def strftime_examples)
  finally show ?thesis .
qed


subsection \<open>The amounts of the report\<close>


text \<open>
  The same for every portfolio: each amount of the report is twice the sum of the coupon
  payments, over all bonds, whose dates fall in the month of its label.
\<close>

theorem monthly_report_doubles:
  assumes "bonds \<noteq> []" and "map coupon_payments bonds = map (\<lambda>ps. Some (Inr ps)) pss"
  shows "\<exists>report. print_all_coupons bonds = Some (Inr report)
       \<and> (\<forall>(l, v) \<in> set report.
            \<exists>mi. l = strftime_Ym mi \<and> v = 2 * sum_list (map (\<lambda>ps. month_total ps mi) pss))"
proof -
  from assms(1) obtain b bs where bonds: "bonds = b # bs" by (cases bonds) auto
  with assms(2) obtain p ps where pss: "pss = p # ps" by (cases pss) auto
  let ?merged = "foldl merge (single_column p) (map single_column ps)"
  let ?report = "drop_zero (relabel (grouped_by_month ?merged))"
  have ret: "print_all_coupons bonds = Some (Inr ?report)"
    using print_all_coupons_unfold[of b bs p ps] assms(2) unfolding bonds pss by simp
  have dist: "\<forall>q \<in> set (p # ps). distinct (map fst q)"
  proof
    fix q assume "q \<in> set (p # ps)"
    then obtain i where i: "i < length pss" "q = pss ! i"
      unfolding pss[symmetric] by (auto simp: in_set_conv_nth)
    have "length pss = length bonds" using assms(2) by (metis length_map)
    with assms(2) i have "coupon_payments (bonds ! i) = Some (Inr q)"
      by (metis nth_map)
    then show "distinct (map fst q)" by (rule coupon_payments_distinct)
  qed
  have wf: "wf_frame ?merged"
    using dist by (intro wf_foldl_merge) (auto simp: wf_single_column)
  have "\<exists>mi. l = strftime_Ym mi \<and> v = 2 * sum_list (map (\<lambda>ps. month_total ps mi) pss)"
    if "(l, v) \<in> set ?report" for l v
  proof -
    from that obtain mi where mi: "l = strftime_Ym mi" "(mi, v) \<in> set (grouped_by_month ?merged)"
      by (auto simp: drop_zero_def relabel_def)
    from grouped_entry_doubles[OF wf mi(2)] merged_month_sum[OF dist, of mi]
    have "v = 2 * sum_list (map (\<lambda>q. month_total q mi) (p # ps))" by simp
    with mi(1) show ?thesis unfolding pss by blast
  qed
  with ret show ?thesis by blast
qed

theorem monthly_report_doubles_witness:
  "[ofz_29012, ofz_26220] \<noteq> []
   \<and> map coupon_payments [ofz_29012, ofz_26220]
       = map (\<lambda>ps. Some (Inr ps)) [payments_of ofz_29012, payments_of ofz_26220]
   \<and> (\<exists>report. print_all_coupons [ofz_29012, ofz_26220] = Some (Inr report)
         \<and> (''2019/11'', 3959 / 50) \<in> set report
         \<and> (\<forall>(l, v) \<in> set report.
              \<exists>mi. l = strftime_Ym mi
                 \<and> v = 2 * sum_list (map (\<lambda>ps. month_total ps mi)
                                      [payments_of ofz_29012, payments_of ofz_26220])))"
proof -
  have a: "[ofz_29012, ofz_26220] \<noteq> []" by simp
  have b: "map coupon_payments [ofz_29012, ofz_26220]
       = map (\<lambda>ps. Some (Inr ps)) [payments_of ofz_29012, payments_of ofz_26220]"
    by (simp add: payments_of_def ofz_29012_payments ofz_26220_payments)
  from monthly_report_doubles[OF a b] two_bond_report a b show ?thesis by auto
qed



section \<open>Yield to maturity\<close>















end
